theory Spec2Isabelle
  imports Complex_Main
begin

section \<open>Python values shared by the classes of BTC14.py\<close>

text \<open>
  A Python \<open>str\<close> is represented by its UTF-8 encoding, a list of bytes (\<open>string\<close>):
  two \<open>str\<close> objects are equal exactly when their encodings are. Python's unbounded
  \<open>int\<close> is \<open>int\<close>, or \<open>nat\<close> for a counter that only ever grows from 0. A \<open>float\<close>
  that holds a clock reading is idealised as the rational number it denotes.
\<close>

text \<open>
  An exception is the value that determines its message, not the message: \<open>KeyError k\<close>
  is the \<open>KeyError\<close> of the key \<open>k\<close>, \<open>LibraryError m\<close> an exception raised inside a
  library, and \<open>RuntimeError e\<close> the \<open>RuntimeError\<close> of \<open>WalletGenerator.generate\<close>, whose
  message is \<open>Generation failed:\<close> followed by \<open>str(e)\<close>.
\<close>

datatype py_exn =
    KeyError string
  | ZeroDivisionError
  | ValueError
  | LibraryError string
  | RuntimeError py_exn

definition BATCH_SIZE :: nat where
  "BATCH_SIZE = 100000"

definition DISPLAY_HISTORY :: nat where
  "DISPLAY_HISTORY = 10"

definition ADDRESS_TYPES :: "string list" where
  "ADDRESS_TYPES = [''P2PKH'', ''P2SH-P2WPKH'', ''P2WPKH'', ''P2TR'']"


section \<open>The address file as the operating system presents it\<close>

text \<open>
  What \<open>AddressDatabase.load\<close> asks of its environment: \<open>str(Path(file_path))\<close>, whether
  the path exists, its \<open>st_mtime\<close>, whether \<open>open(path, 'r+b')\<close> succeeds, the bytes of the
  file, and the two readings of \<open>time.monotonic()\<close>.
\<close>

record file_entry =
  st_mtime :: rat
  can_open :: bool
  content :: string

record world =
  path_str :: "string \<Rightarrow> string"
  files :: "string \<Rightarrow> file_entry option"
  monotonic_start :: rat
  monotonic_end :: rat

definition NL :: char where
  "NL = CHR 0x0A"

text \<open>\<open>bytes.strip()\<close> removes leading and trailing ASCII whitespace: space, \<open>\t \n \r \x0b \x0c\<close>.\<close>

definition py_isspace :: "char \<Rightarrow> bool" where
  "py_isspace c = (c \<in> set [CHR 0x20, CHR 0x09, CHR 0x0A, CHR 0x0D, CHR 0x0B, CHR 0x0C])"

definition strip :: "string \<Rightarrow> string" where
  "strip bs = rev (dropWhile py_isspace (rev (dropWhile py_isspace bs)))"

text \<open>\<open>mm.readline()\<close>: the bytes up to and including the next newline, and the rest of the map.\<close>

fun readline :: "string \<Rightarrow> string \<times> string" where
  "readline [] = ([], [])"
| "readline (c # cs) =
     (if c = NL then ([c], cs)
      else (case readline cs of (l, r) \<Rightarrow> (c # l, r)))"

text \<open>
  \<open>.decode('utf-8')\<close> raises \<open>UnicodeDecodeError\<close> on bytes that are not well-formed UTF-8
  (overlong forms, surrogates and code points above U+10FFFF included). On well-formed
  bytes the resulting \<open>str\<close> is represented by those same bytes.
\<close>

definition cont :: "nat \<Rightarrow> bool" where
  "cont b = (0x80 \<le> b \<and> b \<le> 0xBF)"

fun utf8_ok :: "nat list \<Rightarrow> bool" where
  "utf8_ok [] = True"
| "utf8_ok (b # bs) =
     (if b < 0x80 then utf8_ok bs
      else if 0xC2 \<le> b \<and> b \<le> 0xDF then
        (case bs of c1 # r \<Rightarrow> cont c1 \<and> utf8_ok r | _ \<Rightarrow> False)
      else if 0xE0 \<le> b \<and> b \<le> 0xEF then
        (case bs of c1 # c2 # r \<Rightarrow>
           (if b = 0xE0 then 0xA0 \<le> c1 \<and> c1 \<le> 0xBF
            else if b = 0xED then 0x80 \<le> c1 \<and> c1 \<le> 0x9F
            else cont c1) \<and> cont c2 \<and> utf8_ok r
         | _ \<Rightarrow> False)
      else if 0xF0 \<le> b \<and> b \<le> 0xF4 then
        (case bs of c1 # c2 # c3 # r \<Rightarrow>
           (if b = 0xF0 then 0x90 \<le> c1 \<and> c1 \<le> 0xBF
            else if b = 0xF4 then 0x80 \<le> c1 \<and> c1 \<le> 0x8F
            else cont c1) \<and> cont c2 \<and> cont c3 \<and> utf8_ok r
         | _ \<Rightarrow> False)
      else False)"

definition decode_utf8 :: "string \<Rightarrow> string option" where
  "decode_utf8 bs = (if utf8_ok (map of_char bs) then Some bs else None)"


section \<open>AddressDatabase\<close>

text \<open>
  The fields of \<open>AddressDatabase.__init__\<close>; \<open>_count\<close> and \<open>_last_modified\<close> are
  \<open>priv_count\<close> and \<open>priv_last_modified\<close>. The lock serialises the accesses and holds no
  data.
\<close>

record AddressDatabase =
  addresses :: "string set"
  priv_count :: nat
  load_time :: rat
  file_path :: string
  priv_last_modified :: rat
  address_list :: "string list"

definition AddressDatabase_init :: AddressDatabase where
  "AddressDatabase_init =
     \<lparr>addresses = {}, priv_count = 0, load_time = 0, file_path = [],
      priv_last_modified = 0, address_list = []\<rparr>"

text \<open>
  The \<open>while True\<close> loop of \<open>load\<close> over the bytes not yet read. \<open>None\<close> is the
  \<open>UnicodeDecodeError\<close> that leaves the loop; the first equation is \<open>if not line: break\<close>
  followed by the flush of the last batch.
\<close>

function read_loop ::
  "string \<Rightarrow> string set \<Rightarrow> string list \<Rightarrow> string set \<Rightarrow> string list
     \<Rightarrow> (string set \<times> string list) option" where
  "read_loop [] temp_set temp_list batch batch_list =
     (if batch \<noteq> {} then Some (temp_set \<union> batch, temp_list @ batch_list)
      else Some (temp_set, temp_list))"
| "read_loop (c # cs) temp_set temp_list batch batch_list =
     (case decode_utf8 (strip (fst (readline (c # cs)))) of
        None \<Rightarrow> None
      | Some addr \<Rightarrow>
          if addr \<noteq> [] then
            (if card (insert addr batch) \<ge> BATCH_SIZE
             then read_loop (snd (readline (c # cs)))
                    (temp_set \<union> insert addr batch) (temp_list @ batch_list @ [addr]) {} []
             else read_loop (snd (readline (c # cs)))
                    temp_set temp_list (insert addr batch) (batch_list @ [addr]))
          else read_loop (snd (readline (c # cs))) temp_set temp_list batch batch_list)"
  by pat_completeness auto
termination
proof -
  have le: "length (snd (readline mm)) \<le> length mm" for mm
    by (induction mm) (auto split: prod.splits)
  have lt: "length (snd (readline (c # cs))) < Suc (length cs)" for c cs
    using le [of cs] by (auto split: prod.splits)
  show ?thesis
    by (relation "measure (\<lambda>(mm, _). length mm)")
       (auto simp del: readline.simps simp: lt)
qed

text \<open>
  \<open>load\<close>. The result is the returned \<open>bool\<close> and the object afterwards. Every exception
  inside the \<open>try\<close> ends in \<open>return False\<close>: \<open>open\<close> failing, \<open>mmap\<close> refusing an empty
  file (\<open>ValueError\<close>), and a line that does not decode.
\<close>

definition load :: "world \<Rightarrow> string \<Rightarrow> AddressDatabase \<Rightarrow> bool \<times> AddressDatabase" where
  "load w path_arg self =
     (let path = path_str w path_arg in
      case files w path of
        None \<Rightarrow> (False, self)
      | Some f \<Rightarrow>
          let current_mtime = st_mtime f in
          if file_path self = path \<and> priv_last_modified self = current_mtime
          then (True, self)
          else
            let self1 = self\<lparr>priv_last_modified := current_mtime, file_path := path\<rparr> in
            if \<not> can_open f then (False, self1)
            else if content f = [] then (False, self1)
            else
              (case read_loop (content f) {} [] {} [] of
                 None \<Rightarrow> (False, self1)
               | Some (temp_set, temp_list) \<Rightarrow>
                   (True, self1\<lparr>addresses := temp_set,
                                address_list := temp_list,
                                priv_count := card temp_set,
                                load_time := monotonic_end w - monotonic_start w\<rparr>)))"

definition count :: "AddressDatabase \<Rightarrow> nat" where
  "count self = priv_count self"

definition contains :: "AddressDatabase \<Rightarrow> string \<Rightarrow> bool" where
  "contains self address = (address \<in> addresses self)"

text \<open>
  The guard of \<open>load\<close> that answers \<open>True\<close> without reading: the recorded path and
  modification time are those of the file.
\<close>

definition already_loaded :: "world \<Rightarrow> string \<Rightarrow> AddressDatabase \<Rightarrow> bool" where
  "already_loaded w path_arg self =
     (case files w (path_str w path_arg) of
        None \<Rightarrow> False
      | Some f \<Rightarrow> file_path self = path_str w path_arg \<and> priv_last_modified self = st_mtime f)"

text \<open>
  Python slices. \<open>xs[::step]\<close> for a positive step takes every \<open>step\<close>-th element from the
  front, for a negative step from the back; step 0 raises \<open>ValueError\<close>. \<open>xs[:stop]\<close> keeps
  the first \<open>stop\<close> elements, or drops the last \<open>-stop\<close> when \<open>stop\<close> is negative.
\<close>

function stride :: "nat \<Rightarrow> 'a list \<Rightarrow> 'a list" where
  "stride k [] = []"
| "stride k (x # xs) = x # stride k (drop (k - 1) xs)"
  by pat_completeness auto
termination
  by (relation "measure (\<lambda>(k, xs). length xs)") auto

definition slice_step :: "'a list \<Rightarrow> int \<Rightarrow> py_exn + 'a list" where
  "slice_step xs step =
     (if step = 0 then Inl ValueError
      else if 0 < step then Inr (stride (nat step) xs)
      else Inr (stride (nat (- step)) (rev xs)))"

definition slice_stop :: "'a list \<Rightarrow> int \<Rightarrow> 'a list" where
  "slice_stop xs stop =
     (if 0 \<le> stop then take (nat stop) xs
      else take (length xs - nat (- stop)) xs)"

definition get_sample_addresses :: "AddressDatabase \<Rightarrow> int \<Rightarrow> py_exn + string list" where
  "get_sample_addresses self cnt =
     (if int (length (address_list self)) \<le> cnt then Inr (address_list self)
      else if cnt = 0 then Inl ZeroDivisionError
      else
        (let step = int (length (address_list self)) div cnt in
         case slice_step (address_list self) step of
           Inl e \<Rightarrow> Inl e
         | Inr ys \<Rightarrow> Inr (slice_stop ys cnt)))"


section \<open>The address file as the specification describes it\<close>

text \<open>
  The specification's words: one address per line, surrounding whitespace trimmed, blank
  lines ignored. \<open>text_lines\<close> cuts the file at its newlines; \<open>file_addresses\<close> are the
  trimmed lines that are not blank, in file order.
\<close>

fun text_lines :: "string \<Rightarrow> string list" where
  "text_lines [] = []"
| "text_lines (c # cs) =
     (if c = NL then [] # text_lines cs
      else (case text_lines cs of [] \<Rightarrow> [[c]] | l # ls \<Rightarrow> (c # l) # ls))"

definition file_addresses :: "string \<Rightarrow> string list" where
  "file_addresses bs = filter (\<lambda>a. a \<noteq> []) (map strip (text_lines bs))"


section \<open>WalletGenerator\<close>

datatype bip_class = Bip44 | Bip49 | Bip84 | Bip86

text \<open>\<open>DERIVATION_PATHS\<close> in the order of the dictionary; the coin is Bitcoin in every entry.\<close>

definition DERIVATION_PATHS :: "(string \<times> bip_class) list" where
  "DERIVATION_PATHS =
     [(''P2PKH'', Bip44), (''P2SH-P2WPKH'', Bip49), (''P2WPKH'', Bip84), (''P2TR'', Bip86)]"

definition strengths :: "string \<Rightarrow> nat option" where
  "strengths = map_of [(''12'', 128), (''24'', 256)]"

text \<open>
  What one call of \<open>generate\<close> receives from outside the class: whether \<open>random.choice\<close>
  picks the second element of \<open>["12", "24"]\<close>, the result of \<open>Mnemonic.generate\<close>, of
  \<open>Bip39SeedGenerator(mnemonic).Generate()\<close>, of
  \<open>bip_class.FromSeed(seed, coin).DeriveDefaultPath().PublicKey().ToAddress()\<close>, each either
  a value or the exception it raises, and the clock as \<open>%H:%M:%S\<close>.
\<close>

record gen_env =
  random_second :: bool
  mnemonic_generate :: "nat \<Rightarrow> py_exn + string"
  seed_generate :: "string \<Rightarrow> py_exn + string"
  derive_address :: "bip_class \<Rightarrow> string \<Rightarrow> py_exn + string"
  now_hms :: string

text \<open>The \<open>addresses\<close> dictionary, in insertion order: address type to address or \<open>None\<close>.\<close>

type_synonym address_dict = "(string \<times> string option) list"

definition dict_get :: "address_dict \<Rightarrow> string \<Rightarrow> string option" where
  "dict_get d k = (case map_of d k of None \<Rightarrow> None | Some v \<Rightarrow> v)"

record generation =
  gen_mnemonic :: string
  gen_addresses :: address_dict
  gen_time :: string
  gen_word_length :: string

record WalletGenerator =
  mode :: string
  last_generation :: "generation option"
  generation_history :: "generation list"

definition WalletGenerator_init :: "string \<Rightarrow> WalletGenerator" where
  "WalletGenerator_init m = \<lparr>mode = m, last_generation = None, generation_history = []\<rparr>"

text \<open>
  The body of the outer \<open>try\<close> of \<open>generate\<close> up to the \<open>generation\<close> dictionary. The inner
  \<open>try\<close> turns an exception of one derivation into \<open>None\<close> for that address type.
\<close>

definition try_generate :: "gen_env \<Rightarrow> WalletGenerator \<Rightarrow> py_exn + generation" where
  "try_generate env self =
     (let word_length =
            (if mode self = ''random'' then (if random_second env then ''24'' else ''12'')
             else mode self)
      in case strengths word_length of
           None \<Rightarrow> Inl (KeyError word_length)
         | Some strength \<Rightarrow>
             (case mnemonic_generate env strength of
                Inl e \<Rightarrow> Inl e
              | Inr mnemonic \<Rightarrow>
                  (case seed_generate env mnemonic of
                     Inl e \<Rightarrow> Inl e
                   | Inr seed \<Rightarrow>
                       Inr \<lparr>gen_mnemonic = mnemonic,
                            gen_addresses =
                              map (\<lambda>(addr_type, cls).
                                     (addr_type,
                                      case derive_address env cls seed of
                                        Inl e \<Rightarrow> None
                                      | Inr a \<Rightarrow> Some a))
                                  DERIVATION_PATHS,
                            gen_time = now_hms env,
                            gen_word_length = word_length\<rparr>)))"

definition generate ::
  "gen_env \<Rightarrow> WalletGenerator \<Rightarrow> (py_exn + string \<times> address_dict) \<times> WalletGenerator" where
  "generate env self =
     (case try_generate env self of
        Inr g \<Rightarrow>
          (let history = generation_history self @ [g] in
           (Inr (gen_mnemonic g, gen_addresses g),
            self\<lparr>last_generation := Some g,
                 generation_history :=
                   (if length history > DISPLAY_HISTORY then tl history else history)\<rparr>))
      | Inl e \<Rightarrow>
          (case last_generation self of
             Some g \<Rightarrow> (Inr (gen_mnemonic g, gen_addresses g), self)
           | None \<Rightarrow> (Inl (RuntimeError e), self)))"


section \<open>ScannerWorker\<close>

record Config =
  thread_limit :: int
  mnemonic_mode :: string
  active_address_types :: "string list"

record found_event =
  found_worker :: nat
  found_mnemonic :: string
  found_matches :: "(string \<times> string) list"
  found_timestamp :: string

record generation_event =
  generation_worker :: nat
  generation_mnemonic :: string
  generation_addresses :: address_dict
  generation_time :: string

record progress_event =
  progress_worker :: nat
  progress_checked :: nat
  progress_found :: nat
  progress_speed :: rat

text \<open>
  The text of an error signal is \<open>Worker {id} error: {str(e)}\<close>, from
  \<open>_process_generation\<close>, or \<open>Worker {id} crashed: {str(e)}\<close>, from \<open>run\<close>; it is kept as
  the three values that determine it: the worker, the handler and the exception \<open>e\<close>.
\<close>

record error_event =
  error_worker :: nat
  error_crashed :: bool
  error_cause :: py_exn

datatype signal =
    found_signal found_event
  | generation_signal generation_event
  | progress_signal progress_event
  | error_signal error_event

record ScannerWorker =
  id_w :: nat
  config :: Config
  generator :: WalletGenerator
  running :: bool
  checked :: nat
  found :: nat
  start_time :: rat

definition ScannerWorker_init :: "nat \<Rightarrow> Config \<Rightarrow> ScannerWorker" where
  "ScannerWorker_init worker_id cfg =
     \<lparr>id_w = worker_id, config = cfg, generator = WalletGenerator_init (mnemonic_mode cfg),
      running = False, checked = 0, found = 0, start_time = 0\<rparr>"

text \<open>
  What one iteration of the loop of \<open>run\<close> receives: the environment of \<open>generate\<close>, the
  two readings of \<open>datetime.now()\<close>, the reading of \<open>time.monotonic()\<close>, and whether
  \<open>stop()\<close> cleared \<open>_running\<close> while the iteration ran.
\<close>

record iter_env =
  wallet_env :: gen_env
  now_iso :: string
  now_clock :: string
  monotonic_now :: rat
  stop_request :: bool

definition matches :: "AddressDatabase \<Rightarrow> address_dict \<Rightarrow> string list \<Rightarrow> (string \<times> string) list" where
  "matches db addrs types =
     concat (map (\<lambda>addr_type.
                    case dict_get addrs addr_type of
                      None \<Rightarrow> []
                    | Some addr \<Rightarrow>
                        if addr \<noteq> [] \<and> contains db addr then [(addr_type, addr)] else [])
                 types)"

definition process_generation ::
  "AddressDatabase \<Rightarrow> iter_env \<Rightarrow> ScannerWorker \<Rightarrow> ScannerWorker \<times> signal list" where
  "process_generation db env self =
     (case generate (wallet_env env) (generator self) of
        (Inl e, g') \<Rightarrow>
          (self\<lparr>generator := g'\<rparr>,
           [error_signal \<lparr>error_worker = id_w self, error_crashed = False,
                          error_cause = e\<rparr>])
      | (Inr (mnemonic, addrs), g') \<Rightarrow>
          (let found_list = matches db addrs (active_address_types (config self));
               checked' = checked self + length addrs;
               found' = (if found_list \<noteq> [] then found self + length found_list
                         else found self)
           in (self\<lparr>generator := g', checked := checked', found := found'\<rparr>,
               (if found_list \<noteq> [] then
                  [found_signal \<lparr>found_worker = id_w self, found_mnemonic = mnemonic,
                                 found_matches = found_list,
                                 found_timestamp = now_iso env\<rparr>]
                else [])
               @ [generation_signal \<lparr>generation_worker = id_w self,
                                      generation_mnemonic = mnemonic,
                                      generation_addresses = addrs,
                                      generation_time = now_clock env\<rparr>]
               @ (if checked' mod 100 = 0 then
                    [progress_signal
                       \<lparr>progress_worker = id_w self, progress_checked = checked',
                        progress_found = found',
                        progress_speed =
                          of_nat checked' / max (1 / 10) (monotonic_now env - start_time self)\<rparr>]
                  else []))))"

text \<open>
  \<open>run\<close>. \<open>start_run\<close> is the two assignments before the loop. \<open>run_loop\<close> is the
  \<open>while self._running\<close> loop over the iterations the scheduler has granted so far: a
  worker that is still \<open>running\<close> when they are used up is still inside the loop. Every
  exception of \<open>_process_generation\<close> is caught inside it, so the \<open>except\<close> of \<open>run\<close> is
  never entered.
\<close>

definition start_run :: "rat \<Rightarrow> ScannerWorker \<Rightarrow> ScannerWorker" where
  "start_run t self = self\<lparr>running := True, start_time := t\<rparr>"

fun run_loop ::
  "AddressDatabase \<Rightarrow> iter_env list \<Rightarrow> ScannerWorker \<Rightarrow> ScannerWorker \<times> signal list" where
  "run_loop db [] self = (self, [])"
| "run_loop db (env # envs) self =
     (if \<not> running self then (self, [])
      else
        (case process_generation db env self of
           (self1, out1) \<Rightarrow>
             (case run_loop db envs
                     (if stop_request env then self1\<lparr>running := False\<rparr> else self1) of
                (self2, out2) \<Rightarrow> (self2, out1 @ out2))))"

definition run ::
  "AddressDatabase \<Rightarrow> rat \<Rightarrow> iter_env list \<Rightarrow> ScannerWorker \<Rightarrow> ScannerWorker \<times> signal list" where
  "run db t envs self = run_loop db envs (start_run t self)"


section \<open>MainWindow: starting and stopping a scan\<close>

text \<open>The messages \<open>start_scan\<close> and \<open>stop_scan\<close> pass to \<open>log_message\<close>, with their level.\<close>

datatype log_text =
    No_addresses_loaded
  | Scanning_started int
  | Scanning_stopped

text \<open>
  The part of the window that \<open>start_scan\<close> and \<open>stop_scan\<close> read and write: the
  configuration dictionary, the database, the workers, the counters, the spin box, the
  combo box, the four check boxes in the order of \<open>self.checks\<close>, the two buttons and
  the log.
\<close>

record MainWindow =
  window_config :: Config
  address_db :: AddressDatabase
  workers :: "ScannerWorker list"
  total_checked :: nat
  total_found :: nat
  window_start_time :: rat
  spn_threads :: int
  cmb_mode :: string
  checks :: "(string \<times> bool) list"
  btn_start_enabled :: bool
  btn_stop_enabled :: bool
  log_view :: "(log_text \<times> string) list"

definition mode_of_text :: "string \<Rightarrow> string" where
  "mode_of_text t =
     (case map_of [(''Random'', ''random''), (''12 Words'', ''12''), (''24 Words'', ''24'')] t of
        None \<Rightarrow> ''random''
      | Some m \<Rightarrow> m)"

definition stop_scan :: "MainWindow \<Rightarrow> MainWindow" where
  "stop_scan self =
     (if workers self = [] then self
      else self\<lparr>workers := [], btn_start_enabled := True, btn_stop_enabled := False,
                log_view := log_view self @ [(Scanning_stopped, ''info'')]\<rparr>)"

text \<open>
  \<open>start_scan\<close>. \<open>now\<close> is the window's reading of \<open>time.monotonic()\<close>, \<open>thread_clock i\<close>
  the reading the \<open>i\<close>-th new thread takes when \<open>worker.start()\<close> enters \<open>run\<close>.
\<close>

definition start_scan :: "rat \<Rightarrow> (nat \<Rightarrow> rat) \<Rightarrow> MainWindow \<Rightarrow> MainWindow" where
  "start_scan now thread_clock self =
     (if count (address_db self) = 0
      then self\<lparr>log_view := log_view self @ [(No_addresses_loaded, ''error'')]\<rparr>
      else
        (let cfg = (window_config self)
                     \<lparr>thread_limit := spn_threads self,
                      mnemonic_mode := mode_of_text (cmb_mode self),
                      active_address_types := map fst (filter snd (checks self))\<rparr>;
             self1 = stop_scan (self\<lparr>window_config := cfg\<rparr>);
             self2 = self1\<lparr>total_checked := 0, total_found := 0, window_start_time := now\<rparr>;
             spawned = map (\<lambda>i. start_run (thread_clock i) (ScannerWorker_init (i + 1) cfg))
                           [0 ..< nat (thread_limit cfg)]
         in self2\<lparr>workers := workers self2 @ spawned,
                   btn_start_enabled := False, btn_stop_enabled := True,
                   log_view := log_view self2 @ [(Scanning_started (thread_limit cfg), ''info'')]\<rparr>))"


section \<open>Concrete inputs\<close>

text \<open>
  A file system holding one file, in which a path is its own text except for the empty
  path; a database as \<open>load\<close> leaves it after reading the one line \<open>abc\<close>; a database
  holding a given ordered list.
\<close>

definition one_file_world :: "string \<Rightarrow> rat \<Rightarrow> bool \<Rightarrow> string \<Rightarrow> world" where
  "one_file_world name mt openable bytes =
     \<lparr>path_str = (\<lambda>p. if p = [] then ''.'' else p),
      files = (\<lambda>p. if p = name
                    then Some \<lparr>st_mtime = mt, can_open = openable, content = bytes\<rparr>
                    else None),
      monotonic_start = 0, monotonic_end = 1\<rparr>"

definition loaded_abc :: AddressDatabase where
  "loaded_abc =
     \<lparr>addresses = {''abc''}, priv_count = 1, load_time = 1, file_path = ''addr.txt'',
      priv_last_modified = 5, address_list = [''abc'']\<rparr>"

text \<open>
  A file system holding \<open>addr.txt\<close>, with the one line \<open>abc\<close> and modification time 5,
  and \<open>other.txt\<close>, whose only line is the byte \<open>0xFF\<close>; whether \<open>addr.txt\<close> can be
  opened and the second reading of the clock are given.
\<close>

definition two_file_world :: "bool \<Rightarrow> rat \<Rightarrow> world" where
  "two_file_world openable t =
     \<lparr>path_str = (\<lambda>p. if p = [] then ''.'' else p),
      files = map_of
        [(''addr.txt'', \<lparr>st_mtime = 5, can_open = openable, content = ''abc'' @ [NL]\<rparr>),
         (''other.txt'', \<lparr>st_mtime = 7, can_open = True, content = [CHR 0xFF, NL]\<rparr>)],
      monotonic_start = 0, monotonic_end = t\<rparr>"

definition db_of_list :: "string list \<Rightarrow> AddressDatabase" where
  "db_of_list xs = AddressDatabase_init\<lparr>addresses := set xs, priv_count := card (set xs), address_list := xs\<rparr>"

text \<open>
  An environment in which the libraries answer, the Taproot derivation raising; one in
  which the seed generator raises; an iteration without a stop request; a configuration
  with all four address types active; a window over a database of \<open>n\<close> addresses with
  every check box ticked or none.
\<close>

definition lib_env :: gen_env where
  "lib_env =
     \<lparr>random_second = False,
      mnemonic_generate = (\<lambda>n. Inr ''abandon ability able''),
      seed_generate = (\<lambda>m. Inr ''seed''),
      derive_address =
        (\<lambda>cls seed. case cls of
             Bip44 \<Rightarrow> Inr ''1abc''
           | Bip49 \<Rightarrow> Inr ''3abc''
           | Bip84 \<Rightarrow> Inr ''bc1q''
           | Bip86 \<Rightarrow> Inl (LibraryError ''taproot'')),
      now_hms = ''12:00:00''\<rparr>"

definition broken_env :: gen_env where
  "broken_env = lib_env\<lparr>seed_generate := (\<lambda>m. Inl (LibraryError ''no seed''))\<rparr>"

definition iter_of :: "gen_env \<Rightarrow> iter_env" where
  "iter_of g =
     \<lparr>wallet_env = g, now_iso = ''2024-01-01T12:00:00'', now_clock = ''12:00:00'',
      monotonic_now = 10, stop_request = False\<rparr>"

definition config_of :: "string \<Rightarrow> Config" where
  "config_of m = \<lparr>thread_limit = 1, mnemonic_mode = m, active_address_types = ADDRESS_TYPES\<rparr>"

definition window_of :: "nat \<Rightarrow> int \<Rightarrow> bool \<Rightarrow> MainWindow" where
  "window_of n threads ticked =
     \<lparr>window_config = config_of ''random'',
      address_db = db_of_list (map (\<lambda>i. replicate (Suc i) CHR ''a'') [0 ..< n]),
      workers = [], total_checked = 0, total_found = 0, window_start_time = 0,
      spn_threads = threads, cmb_mode = ''12 Words'',
      checks = map (\<lambda>t. (t, ticked)) ADDRESS_TYPES,
      btn_start_enabled = True, btn_stop_enabled = False, log_view = []\<rparr>"

text \<open>
  The generator after successive calls of \<open>generate\<close>, one per environment, and the
  progress events among the signals of a run.
\<close>

definition generate_all :: "gen_env list \<Rightarrow> WalletGenerator \<Rightarrow> WalletGenerator" where
  "generate_all envs g = foldl (\<lambda>g e. snd (generate e g)) g envs"

definition progress_events :: "signal list \<Rightarrow> progress_event list" where
  "progress_events out = concat (map (\<lambda>s. case s of progress_signal p \<Rightarrow> [p] | _ \<Rightarrow> []) out)"


section \<open>Reading the file: the loop against the specification's lines\<close>

lemma dropWhile_all: "\<forall>x\<in>set l. P x \<Longrightarrow> dropWhile P l = []"
  by (induction l) auto

lemma strip_snoc_space: "py_isspace c \<Longrightarrow> strip (l @ [c]) = strip l"
proof (cases "\<forall>x\<in>set l. py_isspace x")
  case True
  assume c: "py_isspace c"
  from True have a: "dropWhile py_isspace l = []" by (rule dropWhile_all)
  from True c have b: "dropWhile py_isspace (l @ [c]) = []"
    by (intro dropWhile_all) auto
  show ?thesis unfolding strip_def a b by (rule refl)
next
  case False
  assume c: "py_isspace c"
  from False have "dropWhile py_isspace (l @ [c]) = dropWhile py_isspace l @ [c]"
    by (auto simp: dropWhile_append1)
  with c show ?thesis by (simp add: strip_def)
qed

lemma text_lines_readline:
  "mm \<noteq> [] \<Longrightarrow>
     \<exists>l. text_lines mm = l # text_lines (snd (readline mm)) \<and>
         (fst (readline mm) = l \<or> fst (readline mm) = l @ [NL])"
proof (induction mm)
  case Nil
  then show ?case by simp
next
  case (Cons c cs)
  show ?case
  proof (cases "c = NL")
    case True
    then show ?thesis by simp
  next
    case False
    show ?thesis
    proof (cases cs)
      case Nil
      with False show ?thesis by simp
    next
      case (Cons d ds)
      with Cons.IH obtain l where
        "text_lines cs = l # text_lines (snd (readline cs))"
        "fst (readline cs) = l \<or> fst (readline cs) = l @ [NL]"
        by blast
      with False show ?thesis by (auto split: prod.splits)
    qed
  qed
qed

lemma strip_readline:
  assumes "mm \<noteq> []"
  shows "\<exists>l. text_lines mm = l # text_lines (snd (readline mm)) \<and>
             strip (fst (readline mm)) = strip l"
proof -
  from text_lines_readline [OF assms] obtain l where
    l: "text_lines mm = l # text_lines (snd (readline mm))"
       "fst (readline mm) = l \<or> fst (readline mm) = l @ [NL]"
    by blast
  have "py_isspace NL" by (simp add: py_isspace_def NL_def)
  with l(2) have "strip (fst (readline mm)) = strip l"
    by (auto simp: strip_snoc_space)
  with l(1) show ?thesis by blast
qed

lemma file_addresses_step:
  assumes "mm \<noteq> []"
  shows "file_addresses mm =
           (if strip (fst (readline mm)) \<noteq> [] then [strip (fst (readline mm))] else [])
           @ file_addresses (snd (readline mm))"
proof -
  from strip_readline [OF assms] obtain l where
    "text_lines mm = l # text_lines (snd (readline mm))"
    "strip (fst (readline mm)) = strip l"
    by blast
  then show ?thesis by (simp add: file_addresses_def)
qed

lemma decode_utf8_Some: "decode_utf8 x = Some a \<Longrightarrow> a = x"
  by (simp add: decode_utf8_def split: if_splits)

lemma read_loop_result:
  "read_loop mm temp_set temp_list batch batch_list = Some (S, L) \<Longrightarrow>
   set batch_list = batch \<Longrightarrow>
     S = temp_set \<union> batch \<union> set (file_addresses mm) \<and>
     L = temp_list @ batch_list @ file_addresses mm"
proof (induction mm temp_set temp_list batch batch_list rule: read_loop.induct)
  case (1 temp_set temp_list batch batch_list)
  then show ?case by (auto simp: file_addresses_def split: if_splits)
next
  case (2 c cs temp_set temp_list batch batch_list)
  have step: "file_addresses (c # cs) =
      (if strip (fst (readline (c # cs))) \<noteq> [] then [strip (fst (readline (c # cs)))] else [])
      @ file_addresses (snd (readline (c # cs)))"
    by (rule file_addresses_step) simp
  from "2.prems"(1) obtain addr where
    d: "decode_utf8 (strip (fst (readline (c # cs)))) = Some addr"
    by (auto simp del: readline.simps split: option.splits)
  then have a: "addr = strip (fst (readline (c # cs)))" by (rule decode_utf8_Some)
  show ?case
  proof (cases "addr = []")
    case True
    with "2.prems"(1) d have
      "read_loop (snd (readline (c # cs))) temp_set temp_list batch batch_list = Some (S, L)"
      by (simp del: readline.simps)
    from "2.IH"(3) [OF d _ this "2.prems"(2)] True a show ?thesis
      by (simp del: readline.simps add: step)
  next
    case False
    show ?thesis
    proof (cases "BATCH_SIZE \<le> card (insert addr batch)")
      case True
      with "2.prems"(1) d False have
        "read_loop (snd (readline (c # cs))) (temp_set \<union> insert addr batch)
           (temp_list @ batch_list @ [addr]) {} [] = Some (S, L)"
        by (simp del: readline.simps)
      from "2.IH"(1) [OF d False True this] False a show ?thesis
        by (auto simp del: readline.simps simp: step)
    next
      case nb: False
      with "2.prems"(1) d False have
        r: "read_loop (snd (readline (c # cs))) temp_set temp_list
           (insert addr batch) (batch_list @ [addr]) = Some (S, L)"
        by (simp del: readline.simps)
      have "set (batch_list @ [addr]) = insert addr batch"
        using "2.prems"(2) by simp
      from "2.IH"(2) [OF d False nb r this] False a show ?thesis
        by (auto simp del: readline.simps simp: step)
    qed
  qed
qed

text \<open>What a call of \<open>load\<close> that reads the file publishes.\<close>

lemma load_published:
  assumes "load w p self = (True, self')"
    and "\<not> already_loaded w p self"
    and "files w (path_str w p) = Some f"
  shows "addresses self' = set (file_addresses (content f))"
    and "address_list self' = file_addresses (content f)"
    and "priv_count self' = card (set (file_addresses (content f)))"
proof -
  from assms obtain S L where
    r: "read_loop (content f) {} [] {} [] = Some (S, L)" and
    s: "self' = self\<lparr>priv_last_modified := st_mtime f, file_path := path_str w p,
                      addresses := S, address_list := L, priv_count := card S,
                      load_time := monotonic_end w - monotonic_start w\<rparr>"
    by (auto simp: load_def already_loaded_def Let_def split: if_splits option.splits)
  from read_loop_result [OF r] have "S = set (file_addresses (content f))"
    "L = file_addresses (content f)" by simp_all
  with s show "addresses self' = set (file_addresses (content f))"
    and "address_list self' = file_addresses (content f)"
    and "priv_count self' = card (set (file_addresses (content f)))" by simp_all
qed

text \<open>
  A failing call keeps the published addresses, their order and their number; of the
  other fields it may change the recorded path and modification time.
\<close>

lemma load_failure_keeps_snapshot:
  "load w p self = (False, self') \<Longrightarrow>
     addresses self' = addresses self \<and> address_list self' = address_list self \<and>
     priv_count self' = priv_count self \<and> load_time self' = load_time self"
  by (auto simp: load_def Let_def split: if_splits option.splits)

lemma load_missing_path_unchanged:
  "files w (path_str w p) = None \<Longrightarrow> load w p self = (False, self)"
  by (simp add: load_def)

lemmas eval_load = load_def one_file_world_def AddressDatabase_init_def NL_def strip_def
  py_isspace_def decode_utf8_def BATCH_SIZE_def cont_def

lemma load_abc:
  "load (one_file_world ''addr.txt'' 5 True (''abc'' @ [NL])) ''addr.txt'' AddressDatabase_init
     = (True, loaded_abc)"
  by (simp add: eval_load loaded_abc_def)


section \<open>AddressDatabase: the claims\<close>

text \<open>
  The call that follows a successful one directly, on a path whose text and modification
  time are what they were, returns \<open>True\<close> and leaves every field of the database as
  that call left it. The later file system \<open>w'\<close> may differ from \<open>w\<close> in anything but the
  path's text and the file's modification time.
\<close>

lemma load_directly_again:
  assumes "load w p self = (True, self')"
    and "path_str w' p = path_str w p"
    and "files w (path_str w p) = Some f"
    and "files w' (path_str w' p) = Some f'"
    and "st_mtime f' = st_mtime f"
  shows "load w' p self' = (True, self')"
  using assms
  by (auto simp: load_def Let_def split: if_splits option.splits)

lemma load_directly_again_example:
  "load (one_file_world ''addr.txt'' 5 True (''abc'' @ [NL])) ''addr.txt'' AddressDatabase_init
     = (True, loaded_abc) \<and>
   load (one_file_world ''addr.txt'' 5 False (''xyz'' @ [NL])) ''addr.txt'' loaded_abc
     = (True, loaded_abc)"
proof -
  let ?w = "one_file_world ''addr.txt'' 5 True (''abc'' @ [NL])"
  let ?w' = "one_file_world ''addr.txt'' 5 False (''xyz'' @ [NL])"
  have 1: "load ?w ''addr.txt'' AddressDatabase_init = (True, loaded_abc)" by (rule load_abc)
  have 2: "path_str ?w' ''addr.txt'' = path_str ?w ''addr.txt''"
    by (simp add: one_file_world_def)
  have 3: "files ?w (path_str ?w ''addr.txt'')
             = Some \<lparr>st_mtime = 5, can_open = True, content = ''abc'' @ [NL]\<rparr>"
    by (simp add: one_file_world_def)
  have 4: "files ?w' (path_str ?w' ''addr.txt'')
             = Some \<lparr>st_mtime = 5, can_open = False, content = ''xyz'' @ [NL]\<rparr>"
    by (simp add: one_file_world_def)
  from load_directly_again [OF 1 2 3 4] 1 show ?thesis by simp
qed

text \<open>
  C3. A call of \<open>load\<close> on a path whose text and modification time are unchanged since
  the last successful load is to be a no-op that returns success. After \<open>addr.txt\<close> is
  loaded, a failing load of \<open>other.txt\<close>, whose only line is the byte \<open>0xFF\<close>, has
  overwritten \<open>file_path\<close> and \<open>_last_modified\<close>. The next call on \<open>addr.txt\<close>, its
  modification time still 5, is then not answered by the guard: it reads the file
  again and stores a new \<open>load_time\<close>, and when the file can no longer be opened for
  writing it returns \<open>False\<close>.
\<close>

theorem load_again_after_failed_load:
  "load (two_file_world True 1) ''addr.txt'' AddressDatabase_init = (True, loaded_abc) \<and>
   load (two_file_world True 1) ''other.txt'' loaded_abc
     = (False, loaded_abc\<lparr>priv_last_modified := 7, file_path := ''other.txt''\<rparr>) \<and>
   load (two_file_world True 3) ''addr.txt''
        (loaded_abc\<lparr>priv_last_modified := 7, file_path := ''other.txt''\<rparr>)
     = (True, loaded_abc\<lparr>load_time := 3\<rparr>) \<and>
   load (two_file_world False 3) ''addr.txt''
        (loaded_abc\<lparr>priv_last_modified := 7, file_path := ''other.txt''\<rparr>)
     = (False, loaded_abc)"
  by (simp add: eval_load two_file_world_def loaded_abc_def)

text \<open>
  C4. A failing \<open>load\<close> is to leave the database unchanged. On a file whose second line
  is the byte \<open>0xFF\<close> the first call returns \<open>False\<close> and has already overwritten
  \<open>file_path\<close> and \<open>_last_modified\<close>; the second call on the same, unchanged file
  then returns \<open>True\<close> through the already-loaded guard, with nothing loaded.
\<close>

theorem load_failure_moves_metadata:
  "load (one_file_world ''addr.txt'' 5 True (''abc'' @ [NL, CHR 0xFF, NL])) ''addr.txt''
        AddressDatabase_init
     = (False, AddressDatabase_init\<lparr>priv_last_modified := 5, file_path := ''addr.txt''\<rparr>) \<and>
   load (one_file_world ''addr.txt'' 5 True (''abc'' @ [NL, CHR 0xFF, NL])) ''addr.txt''
        (AddressDatabase_init\<lparr>priv_last_modified := 5, file_path := ''addr.txt''\<rparr>)
     = (True, AddressDatabase_init\<lparr>priv_last_modified := 5, file_path := ''addr.txt''\<rparr>)"
  by (simp add: eval_load)

text \<open>
  C5, as amended. After a call of \<open>load\<close> that returns \<open>True\<close> and is not answered by
  the already-loaded guard, \<open>contains a\<close> holds exactly when \<open>a\<close> is not empty and is some
  line of the file with its surrounding whitespace trimmed.
\<close>

theorem contains_after_load:
  assumes "load w p self = (True, self')"
    and "\<not> already_loaded w p self"
    and "files w (path_str w p) = Some f"
  shows "contains self' a \<longleftrightarrow> a \<noteq> [] \<and> (\<exists>l \<in> set (text_lines (content f)). strip l = a)"
  using load_published(1) [OF assms]
  by (auto simp: contains_def file_addresses_def)

theorem contains_after_load_witness:
  "load (one_file_world ''addr.txt'' 5 True (''abc'' @ [NL])) ''addr.txt'' AddressDatabase_init
     = (True, loaded_abc) \<and>
   \<not> already_loaded (one_file_world ''addr.txt'' 5 True (''abc'' @ [NL])) ''addr.txt''
        AddressDatabase_init \<and>
   contains loaded_abc ''abc'' \<and> \<not> contains loaded_abc ''xyz''"
proof -
  let ?w = "one_file_world ''addr.txt'' 5 True (''abc'' @ [NL])"
  have 1: "load ?w ''addr.txt'' AddressDatabase_init = (True, loaded_abc)" by (rule load_abc)
  have 2: "\<not> already_loaded ?w ''addr.txt'' AddressDatabase_init"
    by (simp add: already_loaded_def one_file_world_def AddressDatabase_init_def)
  have 3: "files ?w (path_str ?w ''addr.txt'')
             = Some \<lparr>st_mtime = 5, can_open = True, content = ''abc'' @ [NL]\<rparr>"
    by (simp add: one_file_world_def)
  from contains_after_load [OF 1 2 3, of "''abc''"] contains_after_load [OF 1 2 3, of "''xyz''"]
  have "contains loaded_abc ''abc''" "\<not> contains loaded_abc ''xyz''"
    by (simp_all add: NL_def strip_def py_isspace_def)
  with 1 2 show ?thesis by simp
qed

text \<open>
  C5 as stated fails where the guard answers: the file was read with the line \<open>abc\<close>,
  now holds the line \<open>xyz\<close> under the same modification time, \<open>load\<close> returns \<open>True\<close>
  and \<open>contains\<close> still denies \<open>xyz\<close>.
\<close>

theorem contains_stale_counterexample:
  "load (one_file_world ''addr.txt'' 5 True (''abc'' @ [NL])) ''addr.txt'' AddressDatabase_init
     = (True, loaded_abc) \<and>
   load (one_file_world ''addr.txt'' 5 True (''xyz'' @ [NL])) ''addr.txt'' loaded_abc
     = (True, loaded_abc) \<and>
   ''xyz'' \<in> set (map strip (text_lines (''xyz'' @ [NL]))) \<and>
   \<not> contains loaded_abc ''xyz''"
  by (simp add: eval_load loaded_abc_def contains_def)

text \<open>
  C6, as amended. After a call of \<open>load\<close> that returns \<open>True\<close> and is not answered by
  the already-loaded guard, \<open>count\<close> is the number of distinct non-blank trimmed lines of
  the file. (Such a file is not empty: \<open>load\<close> fails on an empty one.)
\<close>

theorem count_after_load:
  assumes "load w p self = (True, self')"
    and "\<not> already_loaded w p self"
    and "files w (path_str w p) = Some f"
  shows "count self' = length (remdups (file_addresses (content f)))"
  using load_published(3) [OF assms]
  by (simp add: count_def length_remdups_card_conv)

theorem count_after_load_witness:
  "load (one_file_world ''addr.txt'' 5 True (''abc'' @ [NL] @ ''abc'')) ''addr.txt''
        AddressDatabase_init
     = (True, loaded_abc\<lparr>address_list := [''abc'', ''abc'']\<rparr>) \<and>
   \<not> already_loaded (one_file_world ''addr.txt'' 5 True (''abc'' @ [NL] @ ''abc'')) ''addr.txt''
        AddressDatabase_init \<and>
   count (loaded_abc\<lparr>address_list := [''abc'', ''abc'']\<rparr>) = 1"
proof -
  let ?w = "one_file_world ''addr.txt'' 5 True (''abc'' @ [NL] @ ''abc'')"
  have 1: "load ?w ''addr.txt'' AddressDatabase_init
             = (True, loaded_abc\<lparr>address_list := [''abc'', ''abc'']\<rparr>)"
    by (simp add: eval_load loaded_abc_def)
  have 2: "\<not> already_loaded ?w ''addr.txt'' AddressDatabase_init"
    by (simp add: already_loaded_def one_file_world_def AddressDatabase_init_def)
  have 3: "files ?w (path_str ?w ''addr.txt'')
             = Some \<lparr>st_mtime = 5, can_open = True, content = ''abc'' @ [NL] @ ''abc''\<rparr>"
    by (simp add: one_file_world_def)
  from count_after_load [OF 1 2 3]
  have "count (loaded_abc\<lparr>address_list := [''abc'', ''abc'']\<rparr>) = 1"
    by (simp add: file_addresses_def NL_def strip_def py_isspace_def)
  with 1 2 show ?thesis by simp
qed

text \<open>
  C6 as stated fails where the guard answers: the file now holds two distinct lines under
  the modification time it had when its one line was read, \<open>load\<close> returns \<open>True\<close> and
  \<open>count\<close> is still 1.
\<close>

theorem count_stale_counterexample:
  "load (one_file_world ''addr.txt'' 5 True (''abc'' @ [NL])) ''addr.txt'' AddressDatabase_init
     = (True, loaded_abc) \<and>
   load (one_file_world ''addr.txt'' 5 True (''abc'' @ [NL] @ ''xyz'' @ [NL])) ''addr.txt''
        loaded_abc
     = (True, loaded_abc) \<and>
   length (remdups (file_addresses (''abc'' @ [NL] @ ''xyz'' @ [NL]))) = 2 \<and>
   count loaded_abc = 1"
  by (simp add: eval_load loaded_abc_def count_def file_addresses_def)

text \<open>
  C10, as amended. For a count that is not negative, \<open>get_sample_addresses\<close> returns a
  list exactly when the count is at least 1 or the ordered list is empty; on a non-empty
  list the count 0 raises \<open>ZeroDivisionError\<close>; a count of at least 1 yields at most that
  many addresses, and the whole ordered list when it has at most that many entries.
\<close>

theorem get_sample_addresses_nonneg:
  "0 \<le> cnt \<Longrightarrow>
     ((\<exists>ys. get_sample_addresses self cnt = Inr ys) = (1 \<le> cnt \<or> address_list self = [])) \<and>
     (address_list self \<noteq> [] \<and> cnt = 0 \<longrightarrow>
        get_sample_addresses self cnt = Inl ZeroDivisionError) \<and>
     (1 \<le> cnt \<longrightarrow>
        (\<exists>ys. get_sample_addresses self cnt = Inr ys \<and> int (length ys) \<le> cnt)) \<and>
     (1 \<le> cnt \<and> int (length (address_list self)) \<le> cnt \<longrightarrow>
        get_sample_addresses self cnt = Inr (address_list self))"
proof -
  assume nonneg: "0 \<le> cnt"
  have zero: "get_sample_addresses self cnt = Inl ZeroDivisionError"
    if "address_list self \<noteq> []" "cnt = 0"
    using that by (simp add: get_sample_addresses_def)
  have whole: "get_sample_addresses self cnt = Inr (address_list self)"
    if "int (length (address_list self)) \<le> cnt"
    using that by (simp add: get_sample_addresses_def)
  have capped: "\<exists>ys. get_sample_addresses self cnt = Inr ys \<and> int (length ys) \<le> cnt"
    if pos: "1 \<le> cnt"
  proof (cases "int (length (address_list self)) \<le> cnt")
    case True
    with whole show ?thesis by simp
  next
    case False
    with pos have "0 < int (length (address_list self)) div cnt"
      by (simp add: pos_imp_zdiv_pos_iff)
    with False pos show ?thesis
      by (simp add: get_sample_addresses_def slice_step_def slice_stop_def Let_def)
  qed
  have total: "(\<exists>ys. get_sample_addresses self cnt = Inr ys) = (1 \<le> cnt \<or> address_list self = [])"
  proof (cases "1 \<le> cnt")
    case True
    with capped show ?thesis by blast
  next
    case False
    with nonneg have c0: "cnt = 0" by simp
    show ?thesis
    proof (cases "address_list self = []")
      case True
      with c0 show ?thesis by (simp add: get_sample_addresses_def)
    next
      case False
      with c0 zero show ?thesis by simp
    qed
  qed
  from total zero capped whole show ?thesis by blast
qed

theorem get_sample_addresses_nonneg_witness:
  "get_sample_addresses (db_of_list [''a'', ''b'', ''c'', ''d'', ''e'']) 2 = Inr [''a'', ''c''] \<and>
   get_sample_addresses (db_of_list [''a'', ''b'']) 0 = Inl ZeroDivisionError \<and>
   get_sample_addresses (db_of_list [''a'', ''b'']) 5 = Inr [''a'', ''b'']"
proof -
  have a: "get_sample_addresses (db_of_list [''a'', ''b'', ''c'', ''d'', ''e'']) 2 = Inr [''a'', ''c'']"
    by (simp add: get_sample_addresses_def db_of_list_def AddressDatabase_init_def
        slice_step_def slice_stop_def)
  from get_sample_addresses_nonneg [of 0 "db_of_list [''a'', ''b'']"]
  have b: "get_sample_addresses (db_of_list [''a'', ''b'']) 0 = Inl ZeroDivisionError"
    by (simp add: db_of_list_def AddressDatabase_init_def)
  from get_sample_addresses_nonneg [of 5 "db_of_list [''a'', ''b'']"]
  have c: "get_sample_addresses (db_of_list [''a'', ''b'']) 5 = Inr [''a'', ''b'']"
    by (simp add: db_of_list_def AddressDatabase_init_def)
  from a b c show ?thesis by simp
qed

text \<open>
  C10 as stated fails at the count \<open>-1\<close>: on a non-empty list the call returns (the empty
  list), and on the empty list it raises \<open>ValueError\<close>, the slice step being 0.
\<close>

theorem get_sample_addresses_negative_counterexample:
  "address_list (db_of_list [''a'']) \<noteq> [] \<and>
   get_sample_addresses (db_of_list [''a'']) (- 1) = Inr [] \<and>
   address_list (db_of_list []) = [] \<and>
   get_sample_addresses (db_of_list []) (- 1) = Inl ValueError"
  by (simp add: get_sample_addresses_def db_of_list_def AddressDatabase_init_def
      slice_step_def slice_stop_def)


section \<open>WalletGenerator: one call and a sequence of calls\<close>

lemma generate_failure:
  "try_generate env g = Inl x \<Longrightarrow> last_generation g = None \<Longrightarrow>
     generate env g = (Inl (RuntimeError x), g)"
  by (simp add: generate_def)

lemma generate_stale:
  "try_generate env g = Inl x \<Longrightarrow> last_generation g = Some gen \<Longrightarrow>
     generate env g = (Inr (gen_mnemonic gen, gen_addresses gen), g)"
  by (simp add: generate_def)

lemma generate_fresh:
  "try_generate env g = Inr gen \<Longrightarrow>
     fst (generate env g) = Inr (gen_mnemonic gen, gen_addresses gen) \<and>
     last_generation (snd (generate env g)) = Some gen \<and>
     mode (snd (generate env g)) = mode g"
  by (simp add: generate_def Let_def)

lemma generate_mode: "mode (snd (generate env g)) = mode g"
  by (simp add: generate_def Let_def split: sum.splits option.splits)

lemma try_generate_mode: "mode g = mode g' \<Longrightarrow> try_generate env g = try_generate env g'"
  by (simp add: try_generate_def)

lemma generate_all_mode: "mode (generate_all envs g) = mode g"
  by (induction envs arbitrary: g) (simp_all add: generate_all_def generate_mode)

lemma generate_all_Cons: "generate_all (e # envs) g = generate_all envs (snd (generate e g))"
  by (simp add: generate_all_def)

lemma generate_all_append:
  "generate_all (es1 @ es2) g = generate_all es2 (generate_all es1 g)"
  by (simp add: generate_all_def)

lemma generate_all_failures:
  "\<forall>e\<in>set envs. \<exists>y. try_generate e g = Inl y \<Longrightarrow> generate_all envs g = g"
proof (induction envs)
  case Nil
  then show ?case by (simp add: generate_all_def)
next
  case (Cons e envs)
  then obtain y where "try_generate e g = Inl y" by auto
  then have "snd (generate e g) = g"
    by (simp add: generate_def split: option.splits)
  with Cons show ?case by (simp add: generate_all_Cons)
qed

lemmas eval_gen = WalletGenerator_init_def lib_env_def broken_env_def generate_def
  try_generate_def strengths_def DERIVATION_PATHS_def DISPLAY_HISTORY_def generate_all_def

text \<open>
  C9. Let the generator have answered the calls \<open>envs\<close>, and let the body of \<open>generate\<close>
  raise in the next call. If the body raised in every earlier call, \<open>generate\<close> raises
  \<open>RuntimeError\<close>. If it succeeded in an earlier call and raised in all later ones,
  \<open>generate\<close> returns the mnemonic and the addresses of that call again, and leaves the
  generator as it is. It raises exactly when no earlier call succeeded.
\<close>

theorem generate_error_recovery:
  assumes g: "g = generate_all envs (WalletGenerator_init m)"
    and fails: "try_generate env g = Inl x"
  shows "((\<forall>e\<in>set envs. \<exists>y. try_generate e (WalletGenerator_init m) = Inl y) \<longrightarrow>
            generate env g = (Inl (RuntimeError x), g)) \<and>
         (\<forall>es1 e es2 gen.
            envs = es1 @ e # es2 \<and> try_generate e (WalletGenerator_init m) = Inr gen \<and>
            (\<forall>e'\<in>set es2. \<exists>y. try_generate e' (WalletGenerator_init m) = Inl y) \<longrightarrow>
            generate env g = (Inr (gen_mnemonic gen, gen_addresses gen), g)) \<and>
         ((\<exists>y. fst (generate env g) = Inl y) \<longleftrightarrow>
            (\<forall>e\<in>set envs. \<exists>y. try_generate e (WalletGenerator_init m) = Inl y))"
proof -
  let ?g0 = "WalletGenerator_init m"
  have none: "generate env g = (Inl (RuntimeError x), g)"
    if "\<forall>e\<in>set envs. \<exists>y. try_generate e ?g0 = Inl y"
  proof -
    from that have "generate_all envs ?g0 = ?g0" by (rule generate_all_failures)
    with g have "last_generation g = None" by (simp add: WalletGenerator_init_def)
    with fails show ?thesis by (rule generate_failure)
  qed
  have some: "generate env g = (Inr (gen_mnemonic gen, gen_addresses gen), g)"
    if split: "envs = es1 @ e # es2" and ok: "try_generate e ?g0 = Inr gen"
      and rest: "\<forall>e'\<in>set es2. \<exists>y. try_generate e' ?g0 = Inl y"
    for es1 e es2 gen
  proof -
    let ?g1 = "generate_all es1 ?g0"
    let ?g2 = "snd (generate e ?g1)"
    have m1: "mode ?g1 = mode ?g0" by (rule generate_all_mode)
    with ok have ok1: "try_generate e ?g1 = Inr gen"
      using try_generate_mode [of ?g1 ?g0 e] by simp
    then have last: "last_generation ?g2 = Some gen" and m2: "mode ?g2 = mode ?g1"
      using generate_fresh [of e ?g1 gen] by simp_all
    from m1 m2 have "mode ?g2 = mode ?g0" by simp
    with rest have "\<forall>e'\<in>set es2. \<exists>y. try_generate e' ?g2 = Inl y"
      using try_generate_mode [of ?g2 ?g0] by simp
    then have "generate_all es2 ?g2 = ?g2" by (rule generate_all_failures)
    with g split have "g = ?g2" by (simp add: generate_all_append generate_all_Cons)
    with last have "last_generation g = Some gen" by simp
    with fails show ?thesis by (rule generate_stale)
  qed
  have iff: "(\<exists>y. fst (generate env g) = Inl y) \<longleftrightarrow>
               (\<forall>e\<in>set envs. \<exists>y. try_generate e ?g0 = Inl y)"
  proof
    assume raised: "\<exists>y. fst (generate env g) = Inl y"
    show "\<forall>e\<in>set envs. \<exists>y. try_generate e ?g0 = Inl y"
    proof (rule ccontr)
      assume "\<not> (\<forall>e\<in>set envs. \<exists>y. try_generate e ?g0 = Inl y)"
      then have "\<exists>e\<in>set (rev envs). \<not> (\<exists>y. try_generate e ?g0 = Inl y)" by simp
      then obtain r1 e r2 where
        r: "rev envs = r1 @ e # r2" and e: "\<not> (\<exists>y. try_generate e ?g0 = Inl y)"
        and before: "\<forall>e'\<in>set r1. \<exists>y. try_generate e' ?g0 = Inl y"
        using split_list_first_prop [of "rev envs" "\<lambda>e. \<not> (\<exists>y. try_generate e ?g0 = Inl y)"]
        by auto
      from r have "envs = rev r2 @ e # rev r1"
        by (metis rev_rev_ident rev_append rev.simps(2) append_Cons append_Nil append_assoc)
      moreover from e obtain gen where "try_generate e ?g0 = Inr gen"
        by (cases "try_generate e ?g0") auto
      moreover from before have "\<forall>e'\<in>set (rev r1). \<exists>y. try_generate e' ?g0 = Inl y" by simp
      ultimately have "generate env g = (Inr (gen_mnemonic gen, gen_addresses gen), g)"
        by (rule some)
      with raised show False by simp
    qed
  next
    assume "\<forall>e\<in>set envs. \<exists>y. try_generate e ?g0 = Inl y"
    then show "\<exists>y. fst (generate env g) = Inl y" using none by simp
  qed
  from none some iff show ?thesis by blast
qed

theorem generate_error_recovery_witness:
  "generate broken_env (generate_all [lib_env] (WalletGenerator_init ''12''))
     = (Inr (''abandon ability able'',
             [(''P2PKH'', Some ''1abc''), (''P2SH-P2WPKH'', Some ''3abc''),
              (''P2WPKH'', Some ''bc1q''), (''P2TR'', None)]),
        generate_all [lib_env] (WalletGenerator_init ''12'')) \<and>
   generate broken_env (generate_all [] (WalletGenerator_init ''12''))
     = (Inl (RuntimeError (LibraryError ''no seed'')),
        generate_all [] (WalletGenerator_init ''12''))"
proof -
  let ?g0 = "WalletGenerator_init ''12''"
  let ?gen = "\<lparr>gen_mnemonic = ''abandon ability able'',
               gen_addresses = [(''P2PKH'', Some ''1abc''), (''P2SH-P2WPKH'', Some ''3abc''),
                                (''P2WPKH'', Some ''bc1q''), (''P2TR'', None)],
               gen_time = ''12:00:00'', gen_word_length = ''12''\<rparr>"
  have f1: "try_generate broken_env (generate_all [lib_env] ?g0) = Inl (LibraryError ''no seed'')"
    by (simp add: eval_gen)
  have f0: "try_generate broken_env (generate_all [] ?g0) = Inl (LibraryError ''no seed'')"
    by (simp add: eval_gen)
  have ok: "try_generate lib_env ?g0 = Inr ?gen"
    by (simp add: eval_gen)
  from generate_error_recovery [OF refl f1]
  have "\<forall>es1 e es2 gen.
          [lib_env] = es1 @ e # es2 \<and> try_generate e ?g0 = Inr gen \<and>
          (\<forall>e'\<in>set es2. \<exists>y. try_generate e' ?g0 = Inl y) \<longrightarrow>
          generate broken_env (generate_all [lib_env] ?g0)
            = (Inr (gen_mnemonic gen, gen_addresses gen), generate_all [lib_env] ?g0)"
    by blast
  from this [rule_format, of "[]" lib_env "[]" ?gen] ok
  have a: "generate broken_env (generate_all [lib_env] ?g0)
             = (Inr (gen_mnemonic ?gen, gen_addresses ?gen), generate_all [lib_env] ?g0)"
    by simp
  from generate_error_recovery [OF refl f0]
  have b: "generate broken_env (generate_all [] ?g0)
             = (Inl (RuntimeError (LibraryError ''no seed'')),
                generate_all [] ?g0)"
    by simp
  from a b show ?thesis by simp
qed

text \<open>
  C8. When the mode names a strength and the mnemonic and the seed are produced,
  \<open>generate\<close> returns the mnemonic with an entry for each of the four address types:
  \<open>None\<close> where that type's derivation raised, the derived address where it did not.
  \<open>_process_generation\<close> then emits the generation signal and no error signal, and
  leaves \<open>_running\<close> as it was.
\<close>

theorem scheme_failure_is_local:
  assumes "strengths (if mode (generator w) = ''random''
                      then (if random_second (wallet_env ienv) then ''24'' else ''12'')
                      else mode (generator w)) = Some n"
    and "mnemonic_generate (wallet_env ienv) n = Inr m"
    and "seed_generate (wallet_env ienv) m = Inr seed"
  shows "\<exists>addrs g'.
           generate (wallet_env ienv) (generator w) = (Inr (m, addrs), g') \<and>
           map fst addrs = ADDRESS_TYPES \<and>
           (\<forall>(t, cls)\<in>set DERIVATION_PATHS.
              dict_get addrs t =
                (case derive_address (wallet_env ienv) cls seed of
                   Inl e \<Rightarrow> None | Inr a \<Rightarrow> Some a)) \<and>
           running (fst (process_generation db ienv w)) = running w \<and>
           (\<forall>ev. error_signal ev \<notin> set (snd (process_generation db ienv w))) \<and>
           generation_signal
             \<lparr>generation_worker = id_w w, generation_mnemonic = m,
              generation_addresses = addrs, generation_time = now_clock ienv\<rparr>
             \<in> set (snd (process_generation db ienv w))"
proof -
  let ?addrs = "map (\<lambda>(addr_type, cls).
                       (addr_type,
                        case derive_address (wallet_env ienv) cls seed of
                          Inl e \<Rightarrow> None | Inr a \<Rightarrow> Some a))
                    DERIVATION_PATHS"
  from assms have t: "\<exists>gen. try_generate (wallet_env ienv) (generator w) = Inr gen \<and>
                        gen_mnemonic gen = m \<and> gen_addresses gen = ?addrs"
    by (simp add: try_generate_def Let_def)
  then obtain gen where gen: "try_generate (wallet_env ienv) (generator w) = Inr gen"
    "gen_mnemonic gen = m" "gen_addresses gen = ?addrs" by blast
  then obtain g' where g: "generate (wallet_env ienv) (generator w) = (Inr (m, ?addrs), g')"
    by (simp add: generate_def Let_def)
  have keys: "map fst ?addrs = ADDRESS_TYPES"
    by (simp add: DERIVATION_PATHS_def ADDRESS_TYPES_def)
  have vals: "\<forall>(t, cls)\<in>set DERIVATION_PATHS.
                dict_get ?addrs t =
                  (case derive_address (wallet_env ienv) cls seed of
                     Inl e \<Rightarrow> None | Inr a \<Rightarrow> Some a)"
    by (simp add: DERIVATION_PATHS_def dict_get_def)
  from g have run: "running (fst (process_generation db ienv w)) = running w"
    by (simp add: process_generation_def Let_def)
  from g have noerr: "\<forall>ev. error_signal ev \<notin> set (snd (process_generation db ienv w))"
    by (simp add: process_generation_def Let_def)
  from g have gensig: "generation_signal
             \<lparr>generation_worker = id_w w, generation_mnemonic = m,
              generation_addresses = ?addrs, generation_time = now_clock ienv\<rparr>
             \<in> set (snd (process_generation db ienv w))"
    by (simp add: process_generation_def Let_def)
  from g keys vals run noerr gensig show ?thesis by blast
qed

theorem scheme_failure_is_local_witness:
  "\<exists>addrs g'.
     generate lib_env (WalletGenerator_init ''12'') = (Inr (''abandon ability able'', addrs), g') \<and>
     dict_get addrs ''P2TR'' = None \<and>
     dict_get addrs ''P2PKH'' = Some ''1abc'' \<and>
     dict_get addrs ''P2SH-P2WPKH'' = Some ''3abc'' \<and>
     dict_get addrs ''P2WPKH'' = Some ''bc1q''"
proof -
  let ?w = "ScannerWorker_init 1 (config_of ''12'')"
  let ?e = "iter_of lib_env"
  have g: "generator ?w = WalletGenerator_init ''12''"
    by (simp add: ScannerWorker_init_def config_of_def)
  have e: "wallet_env ?e = lib_env" by (simp add: iter_of_def)
  have 1: "strengths (if mode (generator ?w) = ''random''
                      then (if random_second (wallet_env ?e) then ''24'' else ''12'')
                      else mode (generator ?w)) = Some 128"
    by (simp add: ScannerWorker_init_def config_of_def WalletGenerator_init_def strengths_def)
  have 2: "mnemonic_generate (wallet_env ?e) 128 = Inr ''abandon ability able''"
    by (simp add: iter_of_def lib_env_def)
  have 3: "seed_generate (wallet_env ?e) ''abandon ability able'' = Inr ''seed''"
    by (simp add: iter_of_def lib_env_def)
  from scheme_failure_is_local [OF 1 2 3, of "db_of_list []"] obtain addrs g' where
    a: "generate (wallet_env ?e) (generator ?w) = (Inr (''abandon ability able'', addrs), g')"
    and v: "\<forall>(t, cls)\<in>set DERIVATION_PATHS.
              dict_get addrs t =
                (case derive_address (wallet_env ?e) cls ''seed'' of
                   Inl e \<Rightarrow> None | Inr a \<Rightarrow> Some a)"
    by blast
  from v have "dict_get addrs ''P2TR'' = None" "dict_get addrs ''P2PKH'' = Some ''1abc''"
    "dict_get addrs ''P2SH-P2WPKH'' = Some ''3abc''" "dict_get addrs ''P2WPKH'' = Some ''bc1q''"
    by (simp_all add: DERIVATION_PATHS_def iter_of_def lib_env_def)
  with a show ?thesis unfolding g e by blast
qed


section \<open>ScannerWorker: the loop\<close>

lemma process_generation_failure:
  assumes "try_generate (wallet_env e) (generator w) = Inl x"
    and "last_generation (generator w) = None"
  shows "process_generation db e w =
           (w, [error_signal \<lparr>error_worker = id_w w, error_crashed = False,
                              error_cause = RuntimeError x\<rparr>])"
  using generate_failure [OF assms] by (simp add: process_generation_def)

text \<open>
  C7, as amended. A running worker whose every iteration fails, with no stop request,
  emits one error signal per iteration, none of them from the crash handler, and is
  unchanged and still running after any number of iterations: nothing counts
  consecutive failures.
\<close>

theorem failing_worker_keeps_running:
  assumes "running w"
    and "last_generation (generator w) = None"
    and "\<forall>e\<in>set envs. \<not> stop_request e \<and>
           (\<exists>x. try_generate (wallet_env e) (generator w) = Inl x)"
  shows "run_loop db envs w =
           (w, map (\<lambda>e. error_signal
                          \<lparr>error_worker = id_w w, error_crashed = False,
                           error_cause =
                             RuntimeError
                               (projl (try_generate (wallet_env e) (generator w)))\<rparr>)
                   envs) \<and>
         running (fst (run_loop db envs w))"
  using assms
proof (induction envs)
  case Nil
  then show ?case by simp
next
  case (Cons e envs)
  then obtain x where x: "try_generate (wallet_env e) (generator w) = Inl x" by auto
  from Cons.prems have ns: "\<not> stop_request e" by simp
  from process_generation_failure [OF x Cons.prems(2)]
  have p: "process_generation db e w =
             (w, [error_signal \<lparr>error_worker = id_w w, error_crashed = False,
                                error_cause = RuntimeError x\<rparr>])" .
  from Cons have ih: "run_loop db envs w =
           (w, map (\<lambda>e. error_signal
                          \<lparr>error_worker = id_w w, error_crashed = False,
                           error_cause =
                             RuntimeError
                               (projl (try_generate (wallet_env e) (generator w)))\<rparr>)
                   envs)" by simp
  from Cons.prems(1) ns p ih x show ?case by simp
qed

lemmas eval_worker = start_run_def ScannerWorker_init_def WalletGenerator_init_def
  config_of_def iter_of_def lib_env_def try_generate_def strengths_def

theorem failing_worker_keeps_running_witness:
  "run_loop (db_of_list [''x'']) (replicate 4 (iter_of lib_env))
        (start_run 0 (ScannerWorker_init 1 (config_of ''18'')))
     = (start_run 0 (ScannerWorker_init 1 (config_of ''18'')),
        replicate 4 (error_signal \<lparr>error_worker = 1, error_crashed = False,
                                    error_cause = RuntimeError (KeyError ''18'')\<rparr>))"
proof -
  let ?w = "start_run 0 (ScannerWorker_init 1 (config_of ''18''))"
  have 1: "running ?w" by (simp add: start_run_def)
  have 2: "last_generation (generator ?w) = None" by (simp add: eval_worker)
  have t: "try_generate (wallet_env (iter_of lib_env)) (generator ?w) = Inl (KeyError ''18'')"
    by (simp add: eval_worker)
  then have 3: "\<forall>e\<in>set (replicate 4 (iter_of lib_env)). \<not> stop_request e \<and>
           (\<exists>x. try_generate (wallet_env e) (generator ?w) = Inl x)"
    by (simp add: iter_of_def)
  have i: "id_w ?w = 1" by (simp add: eval_worker)
  from failing_worker_keeps_running [OF 1 2 3, of "db_of_list [''x'']"]
  have "run_loop (db_of_list [''x'']) (replicate 4 (iter_of lib_env)) ?w =
          (?w, map (\<lambda>e. error_signal
                          \<lparr>error_worker = id_w ?w, error_crashed = False,
                           error_cause =
                             RuntimeError
                               (projl (try_generate (wallet_env e) (generator ?w)))\<rparr>)
                   (replicate 4 (iter_of lib_env)))"
    by (rule conjunct1)
  then show ?thesis
    unfolding map_replicate t i by simp
qed

text \<open>
  C7 as stated fails for a worker whose mode is \<open>18\<close>, which \<open>strengths\<close> does not
  hold: after three failing iterations it is still running, and a fourth iteration
  follows with a fourth error signal of the same kind.
\<close>

theorem three_failures_counterexample:
  "running (fst (run (db_of_list [''x'']) 0 (replicate 3 (iter_of lib_env))
                     (ScannerWorker_init 1 (config_of ''18'')))) \<and>
   snd (run (db_of_list [''x'']) 0 (replicate 3 (iter_of lib_env))
            (ScannerWorker_init 1 (config_of ''18'')))
     = replicate 3 (error_signal \<lparr>error_worker = 1, error_crashed = False,
                                    error_cause = RuntimeError (KeyError ''18'')\<rparr>) \<and>
   snd (run (db_of_list [''x'']) 0 (replicate 4 (iter_of lib_env))
            (ScannerWorker_init 1 (config_of ''18'')))
     = replicate 4 (error_signal \<lparr>error_worker = 1, error_crashed = False,
                                    error_cause = RuntimeError (KeyError ''18'')\<rparr>)"
  by code_simp

lemma progress_events_append:
  "progress_events (xs @ ys) = progress_events xs @ progress_events ys"
  by (simp add: progress_events_def)

lemma process_generation_success:
  assumes "try_generate (wallet_env e) (generator w) = Inr gen"
  shows "checked (fst (process_generation db e w)) = checked w + 4"
    and "length (progress_events (snd (process_generation db e w)))
           = (if (checked w + 4) mod 100 = 0 then 1 else 0)"
    and "running (fst (process_generation db e w)) = running w"
    and "mode (generator (fst (process_generation db e w))) = mode (generator w)"
proof -
  from assms have len: "length (gen_addresses gen) = 4"
    by (auto simp: try_generate_def Let_def DERIVATION_PATHS_def split: option.splits sum.splits)
  from assms obtain g' where
    g: "generate (wallet_env e) (generator w) = (Inr (gen_mnemonic gen, gen_addresses gen), g')"
    and m: "mode g' = mode (generator w)"
    by (simp add: generate_def Let_def)
  from g len show "checked (fst (process_generation db e w)) = checked w + 4"
    by (simp add: process_generation_def Let_def)
  from g len show "length (progress_events (snd (process_generation db e w)))
           = (if (checked w + 4) mod 100 = 0 then 1 else 0)"
    by (simp add: process_generation_def Let_def progress_events_def)
  from g show "running (fst (process_generation db e w)) = running w"
    by (simp add: process_generation_def Let_def)
  from g m show "mode (generator (fst (process_generation db e w))) = mode (generator w)"
    by (simp add: process_generation_def Let_def)
qed

lemma progress_every_25_candidates:
  assumes "running w" and "checked w = 4 * k"
    and "\<forall>e\<in>set envs. \<not> stop_request e \<and>
           (\<exists>gen. try_generate (wallet_env e) (generator w) = Inr gen)"
  shows "checked (fst (run_loop db envs w)) = 4 * (k + length envs) \<and>
         k div 25 + length (progress_events (snd (run_loop db envs w)))
           = (k + length envs) div 25"
  using assms
proof (induction envs arbitrary: w k)
  case Nil
  then show ?case by (simp add: progress_events_def)
next
  case (Cons e envs)
  from Cons.prems obtain gen where
    gen: "try_generate (wallet_env e) (generator w) = Inr gen" and ns: "\<not> stop_request e"
    by auto
  obtain w1 out1 where p: "process_generation db e w = (w1, out1)"
    by (cases "process_generation db e w")
  note s = process_generation_success [OF gen, of db, unfolded p fst_conv snd_conv]
  from s(1) Cons.prems(2) have c1: "checked w1 = 4 * Suc k" by simp
  from s(3) Cons.prems(1) have r1: "running w1" by simp
  from s(4) Cons.prems(3) have a1:
    "\<forall>e\<in>set envs. \<not> stop_request e \<and>
       (\<exists>gen. try_generate (wallet_env e) (generator w1) = Inr gen)"
    using try_generate_mode [of "generator w1" "generator w"] by simp
  obtain w2 out2 where r: "run_loop db envs w1 = (w2, out2)"
    by (cases "run_loop db envs w1")
  from Cons.IH [OF r1 c1 a1] have ih:
    "checked w2 = 4 * (Suc k + length envs)"
    "Suc k div 25 + length (progress_events out2) = (Suc k + length envs) div 25"
    unfolding r by simp_all
  have "(checked w + 4) mod 100 = 0 \<longleftrightarrow> Suc k mod 25 = 0"
    using Cons.prems(2) by presburger
  with s(2) have "length (progress_events out1) = (if Suc k mod 25 = 0 then 1 else 0)"
    by simp
  then have d: "Suc k div 25 = k div 25 + length (progress_events out1)"
    by (simp add: div_Suc)
  from Cons.prems(1) ns p r have rl: "run_loop db (e # envs) w = (w2, out1 @ out2)"
    by simp
  have tot: "k + length (e # envs) = Suc k + length envs" by simp
  from ih d show ?case
    unfolding rl tot fst_conv snd_conv progress_events_append length_append by linarith
qed

text \<open>
  C2. A progress event is to come once per 100 candidates and count candidates. Each
  candidate adds \<open>len(addresses)\<close>, which is 4, to \<open>_checked\<close>: a fresh worker emits no
  progress event in its first 24 candidates and one after the 25th, whose count is 100.
\<close>

theorem progress_after_25_candidates:
  "progress_events
     (snd (run (db_of_list [''x'']) 0 (replicate 25 (iter_of lib_env))
               (ScannerWorker_init 1 (config_of ''12''))))
     = [\<lparr>progress_worker = 1, progress_checked = 100, progress_found = 0,
         progress_speed = 10\<rparr>] \<and>
   progress_events
     (snd (run (db_of_list [''x'']) 0 (replicate 24 (iter_of lib_env))
               (ScannerWorker_init 1 (config_of ''12'')))) = [] \<and>
   checked (fst (run (db_of_list [''x'']) 0 (replicate 1 (iter_of lib_env))
                     (ScannerWorker_init 1 (config_of ''12'')))) = 4"
  by code_simp


section \<open>MainWindow: the claims\<close>

text \<open>
  C1, as amended. \<open>start_scan\<close> refuses, logging that no addresses are loaded and
  leaving the workers as they are, exactly when the database is empty. Otherwise it
  spawns \<open>thread_limit\<close> running workers numbered from 1, each with the ticked address
  types as its active ones, whether or not any is ticked.
\<close>

theorem start_scan_ignores_schemes:
  "(count (address_db self) = 0 \<longrightarrow>
      start_scan now clk self =
        self\<lparr>log_view := log_view self @ [(No_addresses_loaded, ''error'')]\<rparr>) \<and>
   (count (address_db self) \<noteq> 0 \<longrightarrow>
      map id_w (workers (start_scan now clk self)) = map Suc [0 ..< nat (spn_threads self)] \<and>
      (\<forall>w\<in>set (workers (start_scan now clk self)).
         running w \<and>
         active_address_types (config w) = map fst (filter snd (checks self))) \<and>
      last (log_view (start_scan now clk self)) = (Scanning_started (spn_threads self), ''info''))"
  by (auto simp: start_scan_def stop_scan_def Let_def start_run_def ScannerWorker_init_def
      comp_def)

lemmas eval_window = window_of_def config_of_def db_of_list_def AddressDatabase_init_def
  ADDRESS_TYPES_def count_def

theorem start_scan_ignores_schemes_witness:
  "count (address_db (window_of 1 2 True)) \<noteq> 0 \<and>
   map id_w (workers (start_scan 7 (\<lambda>i. 8) (window_of 1 2 True))) = [1, 2] \<and>
   last (log_view (start_scan 7 (\<lambda>i. 8) (window_of 1 2 True))) = (Scanning_started 2, ''info'') \<and>
   count (address_db (window_of 0 2 True)) = 0 \<and>
   start_scan 7 (\<lambda>i. 8) (window_of 0 2 True)
     = (window_of 0 2 True)\<lparr>log_view := [(No_addresses_loaded, ''error'')]\<rparr>"
proof -
  have c1: "count (address_db (window_of 1 2 True)) \<noteq> 0" by (simp add: eval_window)
  have c0: "count (address_db (window_of 0 2 True)) = 0" by (simp add: eval_window)
  have s: "spn_threads (window_of 1 2 True) = 2" by (simp add: window_of_def)
  have l: "log_view (window_of 0 2 True) = []" by (simp add: window_of_def)
  have u: "map Suc [0 ..< nat 2] = [1, 2]" by code_simp
  from start_scan_ignores_schemes [of "window_of 1 2 True" 7 "\<lambda>i. 8"] c1
  have a: "map id_w (workers (start_scan 7 (\<lambda>i. 8) (window_of 1 2 True))) = [1, 2]"
    "last (log_view (start_scan 7 (\<lambda>i. 8) (window_of 1 2 True))) = (Scanning_started 2, ''info'')"
    unfolding s u by simp_all
  from start_scan_ignores_schemes [of "window_of 0 2 True" 7 "\<lambda>i. 8"] c0
  have b: "start_scan 7 (\<lambda>i. 8) (window_of 0 2 True)
     = (window_of 0 2 True)\<lparr>log_view := [(No_addresses_loaded, ''error'')]\<rparr>"
    unfolding l by simp
  from c1 c0 a b show ?thesis by simp
qed

text \<open>
  C1 as stated fails for a window over one address with no box ticked and two threads
  requested: two workers run, each with no active address type, and the log reports the
  start.
\<close>

theorem no_schemes_scan_starts_counterexample:
  "map fst (filter snd (checks (window_of 1 2 False))) = [] \<and>
   count (address_db (window_of 1 2 False)) = 1 \<and>
   map id_w (workers (start_scan 7 (\<lambda>i. 8) (window_of 1 2 False))) = [1, 2] \<and>
   map running (workers (start_scan 7 (\<lambda>i. 8) (window_of 1 2 False))) = [True, True] \<and>
   map (\<lambda>w. active_address_types (config w))
       (workers (start_scan 7 (\<lambda>i. 8) (window_of 1 2 False))) = [[], []] \<and>
   log_view (start_scan 7 (\<lambda>i. 8) (window_of 1 2 False)) = [(Scanning_started 2, ''info'')]"
  by code_simp

end
